theory Spec2Isabelle
  imports Main "HOL-Library.Word"
begin

section \<open>The computation hypergraph of cnn (src/cnn/cnn.h)\<close>

text \<open>
  The header declares the dimension descriptor \<open>Dim\<close>, the graph structures \<open>Node\<close>,
  \<open>Edge\<close> and \<open>Hypergraph\<close>, and defines the builder \<open>Hypergraph::add_function\<close>.
  Machine integers keep their width: \<open>unsigned short\<close> is a 16-bit word and
  \<open>unsigned\<close> a 32-bit word; conversions between them are written out as \<open>ucast\<close>,
  and the conversion of a container size to \<open>unsigned\<close> as \<open>word_of_nat\<close>.
\<close>

subsection \<open>Failures\<close>

text \<open>
  \<open>Assertion_failed\<close> is the failing \<open>assert\<close> of \<open>operator*\<close>. \<open>Out_of_bounds\<close>
  stands for the undefined behaviour of \<open>std::vector::operator[]\<close> at an index that is
  not below the vector's size. \<open>Empty_graph\<close> is the forward pass on a graph without
  vertices, which the spec leaves undefined.
\<close>

datatype failure = Assertion_failed | Out_of_bounds | Empty_graph

subsection \<open>Dim\<close>

record Dim =
  rows :: "16 word"
  cols :: "16 word"

text \<open>The three constructors: \<open>Dim()\<close>, \<open>Dim(unsigned m)\<close>, \<open>Dim(unsigned m, unsigned n)\<close>.
  The member initialisers \<open>rows(m)\<close>, \<open>cols(n)\<close> narrow \<open>unsigned\<close> to \<open>unsigned short\<close>.\<close>

definition Dim0 :: Dim where
  "Dim0 = \<lparr>rows = 1, cols = 1\<rparr>"

definition Dim1 :: "32 word \<Rightarrow> Dim" where
  "Dim1 m = \<lparr>rows = ucast m, cols = 1\<rparr>"

definition Dim2 :: "32 word \<Rightarrow> 32 word \<Rightarrow> Dim" where
  "Dim2 m n = \<lparr>rows = ucast m, cols = ucast n\<rparr>"

text \<open>\<open>Dim transpose() const { return Dim(cols,rows); }\<close>: the two fields are widened to
  \<open>unsigned\<close> for the constructor call.\<close>

definition transpose_Dim :: "Dim \<Rightarrow> Dim" where
  "transpose_Dim d = Dim2 (ucast (cols d)) (ucast (rows d))"

text \<open>\<open>operator*(const Dim& a, const Dim& b)\<close>: the assertion, then \<open>Dim(a.rows, b.cols)\<close>.\<close>

definition times_Dim :: "Dim \<Rightarrow> Dim \<Rightarrow> failure + Dim" where
  "times_Dim a b =
     (if cols a = rows b then Inr (Dim2 (ucast (rows a)) (ucast (cols b)))
      else Inl Assertion_failed)"


subsection \<open>Matrix\<close>

text \<open>
  \<open>Matrix\<close> is \<open>Eigen::MatrixXd\<close>, a type of an external library: a dynamically sized
  matrix. It is represented by its shape and its coefficients; the coefficient type
  (\<open>double\<close> in the source) is left open. A default-constructed matrix is empty.
\<close>

datatype 'c Matrix = Matrix (mrows: nat) (mcols: nat) (coeffs: "'c list")

definition Matrix_default :: "'c Matrix" where
  "Matrix_default = Matrix 0 0 []"

subsection \<open>Node, Edge, Hypergraph\<close>

record 'c Node =
  in_edge :: "32 word"
  out_edges :: "32 word list"
  var_name :: string
  f :: "'c Matrix"
  dEdf :: "'c Matrix"

text \<open>The constructor \<open>Node(unsigned in_edge_index, const std::string& name)\<close>; the members
  it does not mention are default-constructed.\<close>

definition Node_new :: "32 word \<Rightarrow> string \<Rightarrow> 'c Node" where
  "Node_new in_edge_index name =
     \<lparr>in_edge = in_edge_index, out_edges = [], var_name = name,
      f = Matrix_default, dEdf = Matrix_default\<rparr>"

text \<open>
  \<open>Edge\<close> is an abstract class. The field \<open>fn\<close> is the concrete function object behind
  the \<open>Edge*\<close> (its class supplies the virtual \<open>forward\<close>, \<open>backward\<close>, \<open>as_string\<close> and
  \<open>has_parameters\<close>); \<open>head_node\<close> and \<open>tail\<close> are the two data members.
\<close>

record 'f Edge =
  fn :: 'f
  head_node :: "32 word"
  tail :: "32 word list"

text \<open>\<open>inline unsigned arity() const { return tail.size(); }\<close>\<close>

definition arity :: "'f Edge \<Rightarrow> 32 word" where
  "arity e = word_of_nat (length (tail e))"

text \<open>The two vectors hold pointers to objects that the graph alone owns, each created by
  one \<open>new\<close> and never shared, so they are modelled as lists of the objects.\<close>

record ('f, 'c) Hypergraph =
  edges :: "'f Edge list"
  nodes :: "'c Node list"

definition empty_graph :: "('f, 'c) Hypergraph" where
  "empty_graph = \<lparr>edges = [], nodes = []\<rparr>"

subsection \<open>add\_function\<close>

text \<open>
  The loop \<open>for (auto ni : arguments)\<close> of \<open>add_function\<close>. Its state is the tail of the
  new edge and the node vector; \<open>nodes[ni]\<close> indexes the vector with \<open>ni\<close> converted to
  \<open>size_t\<close>.
\<close>

fun add_arguments ::
  "32 word \<Rightarrow> 32 word list \<Rightarrow> 32 word list \<Rightarrow> 'c Node list
     \<Rightarrow> failure + (32 word list \<times> 'c Node list)" where
  "add_arguments new_edge_index [] ts ns = Inr (ts, ns)"
| "add_arguments new_edge_index (ni # arguments) ts ns =
     (if unat ni < length ns
      then add_arguments new_edge_index arguments (ts @ [ni])
             (ns[unat ni := (ns ! unat ni)
                   \<lparr>out_edges := out_edges (ns ! unat ni) @ [new_edge_index]\<rparr>])
      else Inl Out_of_bounds)"

text \<open>
  \<open>template <class Function> unsigned Hypergraph::add_function(arguments, name)\<close>. The
  template argument becomes the parameter \<open>F\<close>, the object that \<open>new Function\<close> creates.
  The classes given for \<open>Function\<close> are not in the source; like \<open>Edge\<close> itself, which
  declares no constructor, they are taken to leave \<open>tail\<close> empty on construction. The
  edge is reached through a pointer, so the assignments to \<open>head_node\<close> and \<open>tail\<close>
  made after \<open>edges.push_back(new_edge)\<close> show in the stored edge. The loop runs on the
  node vector that already holds the new node.
\<close>

definition add_function ::
  "'f \<Rightarrow> 32 word list \<Rightarrow> string \<Rightarrow> ('f, 'c) Hypergraph
     \<Rightarrow> failure + (('f, 'c) Hypergraph \<times> 32 word)" where
  "add_function F arguments name g =
     (let new_node_index = (word_of_nat (length (nodes g)) :: 32 word);
          new_edge_index = (word_of_nat (length (edges g)) :: 32 word);
          nodes1 = nodes g @ [Node_new new_edge_index name];
          new_edge = \<lparr>fn = F, head_node = new_node_index, tail = []\<rparr>
      in case add_arguments new_edge_index arguments (tail new_edge) nodes1 of
           Inl err \<Rightarrow> Inl err
         | Inr (ts, nodes2) \<Rightarrow>
             Inr (\<lparr>edges = edges g @ [new_edge\<lparr>tail := ts\<rparr>], nodes = nodes2\<rparr>,
                  new_node_index))"

subsection \<open>add\_parameter, add\_input\<close>

text \<open>
  Modelled from the spec: \<open>Hypergraph::add_parameter\<close> and \<open>Hypergraph::add_input\<close> are
  declared in cnn.h and their bodies are not in the source. The spec (4.4) says of each
  that it "appends a 0-arity edge" and returns the index of the new vertex, (2) that each
  builder call appends exactly one vertex, and (3) that the incoming edge of a parameter
  or input vertex "is a 0-arity producer". The edge object is the parameter \<open>P\<close>.
\<close>

definition add_parameter ::
  "'f \<Rightarrow> Dim \<Rightarrow> string \<Rightarrow> ('f, 'c) Hypergraph \<Rightarrow> ('f, 'c) Hypergraph \<times> 32 word" where
  "add_parameter P d name g =
     (let new_node_index = (word_of_nat (length (nodes g)) :: 32 word);
          new_edge_index = (word_of_nat (length (edges g)) :: 32 word)
      in (\<lparr>edges = edges g @ [\<lparr>fn = P, head_node = new_node_index, tail = []\<rparr>],
           nodes = nodes g @ [Node_new new_edge_index name]\<rparr>,
          new_node_index))"

definition add_input ::
  "'f \<Rightarrow> Dim \<Rightarrow> string \<Rightarrow> ('f, 'c) Hypergraph \<Rightarrow> ('f, 'c) Hypergraph \<times> 32 word" where
  "add_input P d name g =
     (let new_node_index = (word_of_nat (length (nodes g)) :: 32 word);
          new_edge_index = (word_of_nat (length (edges g)) :: 32 word)
      in (\<lparr>edges = edges g @ [\<lparr>fn = P, head_node = new_node_index, tail = []\<rparr>],
           nodes = nodes g @ [Node_new new_edge_index name]\<rparr>,
          new_node_index))"

subsection \<open>Graphs built by builder calls\<close>

text \<open>
  An argument index exists in a graph when it is below the number of its nodes. \<open>built\<close>
  holds of the graphs reached from the empty graph by \<open>add_function\<close> calls whose
  arguments all exist in the graph they are passed to. The calls with an empty argument
  list create the 0-arity edges, which is all that \<open>add_parameter\<close> and \<open>add_input\<close>
  do to the structure of a graph.
\<close>

definition exists_in :: "('f, 'c) Hypergraph \<Rightarrow> 32 word \<Rightarrow> bool" where
  "exists_in g ni = (unat ni < length (nodes g))"

inductive built :: "('f, 'c) Hypergraph \<Rightarrow> bool" where
  built_empty: "built empty_graph"
| built_function:
    "built g \<Longrightarrow> list_all (exists_in g) arguments
       \<Longrightarrow> add_function F arguments name g = Inr (g', r) \<Longrightarrow> built g'"

text \<open>The number of times the node at position \<open>v\<close> is named in an argument list.\<close>

definition occurrences :: "32 word list \<Rightarrow> nat \<Rightarrow> nat" where
  "occurrences arguments v = length (filter (\<lambda>ni. unat ni = v) arguments)"

subsection \<open>The structural invariants\<close>

text \<open>
  \<open>topological\<close>: every tail index of every edge is below the edge's head index,
  compared as the unsigned values that are stored.
\<close>

definition topological :: "('f, 'c) Hypergraph \<Rightarrow> bool" where
  "topological g = (\<forall>e\<in>set (edges g). \<forall>t\<in>set (tail e). t < head_node e)"

text \<open>
  \<open>unique_defining_edge\<close>: the \<open>in_edge\<close> field of the node at position \<open>i\<close> is the
  position of an edge whose head is \<open>i\<close>, no other edge has head \<open>i\<close>, and no two edges
  have the same head.
\<close>

definition unique_defining_edge :: "('f, 'c) Hypergraph \<Rightarrow> bool" where
  "unique_defining_edge g =
     ((\<forall>i<length (nodes g).
         unat (in_edge (nodes g ! i)) < length (edges g)
         \<and> unat (head_node (edges g ! unat (in_edge (nodes g ! i)))) = i
         \<and> (\<forall>j<length (edges g). unat (head_node (edges g ! j)) = i
               \<longrightarrow> j = unat (in_edge (nodes g ! i))))
      \<and> distinct (map head_node (edges g)))"

text \<open>
  \<open>link_consistent\<close>: each tail entry \<open>t\<close> of the edge at position \<open>j\<close> names a node
  whose \<open>out_edges\<close> list contains \<open>j\<close>; each entry \<open>x\<close> of the \<open>out_edges\<close> list of the
  node at position \<open>i\<close> names an edge whose tail contains \<open>i\<close>.
\<close>

definition link_consistent :: "('f, 'c) Hypergraph \<Rightarrow> bool" where
  "link_consistent g =
     ((\<forall>j<length (edges g). \<forall>t\<in>set (tail (edges g ! j)).
         unat t < length (nodes g) \<and> j \<in> unat ` set (out_edges (nodes g ! unat t)))
      \<and> (\<forall>i<length (nodes g). \<forall>x\<in>set (out_edges (nodes g ! i)).
         unat x < length (edges g) \<and> i \<in> unat ` set (tail (edges g ! unat x))))"

text \<open>
  The invariant that the builders maintain, on the stored words: the node and the edge at
  position \<open>i\<close> carry the index \<open>i\<close> converted to \<open>unsigned\<close>, tails point to earlier
  positions, and the two directions of the links agree.
\<close>

definition builder_invariant :: "('f, 'c) Hypergraph \<Rightarrow> bool" where
  "builder_invariant g =
     (length (edges g) = length (nodes g)
      \<and> (\<forall>i<length (nodes g). in_edge (nodes g ! i) = word_of_nat i)
      \<and> (\<forall>j<length (edges g). head_node (edges g ! j) = word_of_nat j)
      \<and> (\<forall>j<length (edges g). \<forall>t\<in>set (tail (edges g ! j)). unat t < j)
      \<and> (\<forall>j<length (edges g). \<forall>t\<in>set (tail (edges g ! j)).
            word_of_nat j \<in> set (out_edges (nodes g ! unat t)))
      \<and> (\<forall>i<length (nodes g). \<forall>x\<in>set (out_edges (nodes g ! i)).
            \<exists>j<length (edges g). x = word_of_nat j \<and> i \<in> unat ` set (tail (edges g ! j))))"

subsection \<open>forward\<close>

text \<open>
  Modelled from the spec: \<open>Hypergraph::forward\<close> is declared in cnn.h and its body is not
  in the source. The spec (4.5): "iterate vertices in their stored order. For vertex v
  with incoming edge e: assemble references to the already-computed values of e.tail (in
  tail order), invoke e.forward, and store the result in v's value slot"; the operation
  "produces the value of the last vertex"; on the empty graph it "is undefined". The
  virtual \<open>Edge::forward\<close> of the concrete edge classes is the parameter \<open>fw\<close>.
\<close>

fun forward_nodes ::
  "('f \<Rightarrow> 'c Matrix list \<Rightarrow> 'c Matrix) \<Rightarrow> 'f Edge list \<Rightarrow> nat list \<Rightarrow> 'c Node list
     \<Rightarrow> failure + 'c Node list" where
  "forward_nodes fw es [] ns = Inr ns"
| "forward_nodes fw es (i # is) ns =
     (if i < length ns \<and> unat (in_edge (ns ! i)) < length es
      then let e = es ! unat (in_edge (ns ! i)) in
        if list_all (\<lambda>t. unat t < length ns) (tail e)
        then forward_nodes fw es is
               (ns[i := (ns ! i)\<lparr>f := fw (fn e) (map (\<lambda>t. f (ns ! unat t)) (tail e))\<rparr>])
        else Inl Out_of_bounds
      else Inl Out_of_bounds)"

definition forward ::
  "('f \<Rightarrow> 'c Matrix list \<Rightarrow> 'c Matrix) \<Rightarrow> ('f, 'c) Hypergraph
     \<Rightarrow> failure + (('f, 'c) Hypergraph \<times> 'c Matrix)" where
  "forward fw g =
     (if nodes g = [] then Inl Empty_graph
      else case forward_nodes fw (edges g) [0..<length (nodes g)] (nodes g) of
             Inl err \<Rightarrow> Inl err
           | Inr ns \<Rightarrow> Inr (g\<lparr>nodes := ns\<rparr>, f (last ns)))"

text \<open>
  The vertex at position \<open>i\<close> is evaluated in a node vector when its value slot holds the
  result of its incoming edge's \<open>forward\<close> on the value slots of the edge's tail, in tail
  order.
\<close>

definition evaluated ::
  "('f \<Rightarrow> 'c Matrix list \<Rightarrow> 'c Matrix) \<Rightarrow> 'f Edge list \<Rightarrow> 'c Node list \<Rightarrow> nat \<Rightarrow> bool" where
  "evaluated fw es ns i =
     (let e = es ! unat (in_edge (ns ! i))
      in f (ns ! i) = fw (fn e) (map (\<lambda>t. f (ns ! unat t)) (tail e)))"

text \<open>
  The structural condition under which the forward pass is defined and every tail value
  is computed before it is read: the incoming edge of every vertex exists and its tail
  entries name earlier vertices. It does not mention the value slots, so it holds of a
  graph before its first pass and after any number of passes alike.
\<close>

definition evaluable :: "('f, 'c) Hypergraph \<Rightarrow> bool" where
  "evaluable g =
     (\<forall>i<length (nodes g).
        unat (in_edge (nodes g ! i)) < length (edges g)
        \<and> (\<forall>t\<in>set (tail (edges g ! unat (in_edge (nodes g ! i)))). unat t < i))"

subsection \<open>An example: the sum of two scalars\<close>

text \<open>
  The graph of \<open>z = x + y\<close> with the inputs \<open>x = 2\<close> and \<open>y = 5\<close>, the functions being a
  constant producer and the sum of the coefficients of the arguments.
\<close>

datatype scalar_fn = Const_fn int | Sum_fn

fun scalar_forward :: "scalar_fn \<Rightarrow> int Matrix list \<Rightarrow> int Matrix" where
  "scalar_forward (Const_fn c) xs = Matrix 1 1 [c]"
| "scalar_forward Sum_fn xs = Matrix 1 1 [sum_list (concat (map coeffs xs))]"

definition x_graph :: "(scalar_fn, int) Hypergraph" where
  "x_graph =
     \<lparr>edges = [\<lparr>fn = Const_fn 2, head_node = 0, tail = []\<rparr>],
      nodes = [\<lparr>in_edge = 0, out_edges = [], var_name = ''x'',
                f = Matrix_default, dEdf = Matrix_default\<rparr>]\<rparr>"

definition inputs_graph :: "(scalar_fn, int) Hypergraph" where
  "inputs_graph =
     \<lparr>edges = [\<lparr>fn = Const_fn 2, head_node = 0, tail = []\<rparr>,
               \<lparr>fn = Const_fn 5, head_node = 1, tail = []\<rparr>],
      nodes = [\<lparr>in_edge = 0, out_edges = [], var_name = ''x'',
                f = Matrix_default, dEdf = Matrix_default\<rparr>,
               \<lparr>in_edge = 1, out_edges = [], var_name = ''y'',
                f = Matrix_default, dEdf = Matrix_default\<rparr>]\<rparr>"

definition sum_graph :: "(scalar_fn, int) Hypergraph" where
  "sum_graph =
     \<lparr>edges = [\<lparr>fn = Const_fn 2, head_node = 0, tail = []\<rparr>,
               \<lparr>fn = Const_fn 5, head_node = 1, tail = []\<rparr>,
               \<lparr>fn = Sum_fn, head_node = 2, tail = [0, 1]\<rparr>],
      nodes = [\<lparr>in_edge = 0, out_edges = [2], var_name = ''x'',
                f = Matrix_default, dEdf = Matrix_default\<rparr>,
               \<lparr>in_edge = 1, out_edges = [2], var_name = ''y'',
                f = Matrix_default, dEdf = Matrix_default\<rparr>,
               \<lparr>in_edge = 2, out_edges = [], var_name = ''z'',
                f = Matrix_default, dEdf = Matrix_default\<rparr>]\<rparr>"

text \<open>The same graph after the forward pass: the value slots hold 2, 5 and 7.\<close>

definition sum_graph_evaluated :: "(scalar_fn, int) Hypergraph" where
  "sum_graph_evaluated =
     \<lparr>edges = [\<lparr>fn = Const_fn 2, head_node = 0, tail = []\<rparr>,
               \<lparr>fn = Const_fn 5, head_node = 1, tail = []\<rparr>,
               \<lparr>fn = Sum_fn, head_node = 2, tail = [0, 1]\<rparr>],
      nodes = [\<lparr>in_edge = 0, out_edges = [2], var_name = ''x'',
                f = Matrix 1 1 [2], dEdf = Matrix_default\<rparr>,
               \<lparr>in_edge = 1, out_edges = [2], var_name = ''y'',
                f = Matrix 1 1 [5], dEdf = Matrix_default\<rparr>,
               \<lparr>in_edge = 2, out_edges = [], var_name = ''z'',
                f = Matrix 1 1 [7], dEdf = Matrix_default\<rparr>]\<rparr>"

text \<open>
  A second pass over the evaluated graph after the inputs have changed to 3 and 6 (the
  producers yield their constant plus one): the value slots hold 3, 6 and 9.
\<close>

fun shifted_forward :: "scalar_fn \<Rightarrow> int Matrix list \<Rightarrow> int Matrix" where
  "shifted_forward (Const_fn c) xs = Matrix 1 1 [c + 1]"
| "shifted_forward Sum_fn xs = Matrix 1 1 [sum_list (concat (map coeffs xs))]"

definition sum_graph_reevaluated :: "(scalar_fn, int) Hypergraph" where
  "sum_graph_reevaluated =
     \<lparr>edges = [\<lparr>fn = Const_fn 2, head_node = 0, tail = []\<rparr>,
               \<lparr>fn = Const_fn 5, head_node = 1, tail = []\<rparr>,
               \<lparr>fn = Sum_fn, head_node = 2, tail = [0, 1]\<rparr>],
      nodes = [\<lparr>in_edge = 0, out_edges = [2], var_name = ''x'',
                f = Matrix 1 1 [3], dEdf = Matrix_default\<rparr>,
               \<lparr>in_edge = 1, out_edges = [2], var_name = ''y'',
                f = Matrix 1 1 [6], dEdf = Matrix_default\<rparr>,
               \<lparr>in_edge = 2, out_edges = [], var_name = ''z'',
                f = Matrix 1 1 [9], dEdf = Matrix_default\<rparr>]\<rparr>"

section \<open>Properties of Dim\<close>

lemma ucast_16_32_16: "(ucast (ucast (w :: 16 word) :: 32 word) :: 16 word) = w"
  by (rule ucast_up_ucast_id) (simp add: is_up)

lemma Dim2_widened: "Dim2 (ucast r) (ucast c) = \<lparr>rows = r, cols = c\<rparr>"
  by (simp add: Dim2_def ucast_16_32_16)

lemma transpose_Dim_fields: "transpose_Dim d = \<lparr>rows = cols d, cols = rows d\<rparr>"
  by (simp add: transpose_Dim_def Dim2_widened)

lemma unat_ucast_32_16: "unat (ucast (m :: 32 word) :: 16 word) = unat m mod 2 ^ 16"
  by (simp add: unsigned_ucast_eq take_bit_eq_mod)

lemma unat_16_le: "unat (w :: 16 word) \<le> 65535"
  using unsigned_less [of w, where 'a = nat] by simp

text \<open>
  Claim C6. The product of two dimensions checks \<open>a.cols == b.rows\<close>: when the check
  holds the assertion does not fail and the result is the dimension
  \<open>(a.rows, b.cols)\<close>; when it does not hold the assertion fails.
\<close>

theorem times_Dim_asserts:
  "(cols a = rows b \<longrightarrow> times_Dim a b = Inr \<lparr>rows = rows a, cols = cols b\<rparr>) \<and>
   (cols a \<noteq> rows b \<longrightarrow> times_Dim a b = Inl Assertion_failed)"
  by (simp add: times_Dim_def Dim2_widened)

theorem times_Dim_asserts_witness:
  "cols (Dim2 2 3) = rows (Dim2 3 4)
   \<and> times_Dim (Dim2 2 3) (Dim2 3 4) = Inr \<lparr>rows = 2, cols = 4\<rparr>
   \<and> cols (Dim2 2 3) \<noteq> rows (Dim2 2 3)
   \<and> times_Dim (Dim2 2 3) (Dim2 2 3) = Inl Assertion_failed"
  using times_Dim_asserts [of "Dim2 2 3" "Dim2 3 4"] times_Dim_asserts [of "Dim2 2 3" "Dim2 2 3"]
  by (simp add: Dim2_def)

text \<open>
  Claim C7. \<open>rows\<close> and \<open>cols\<close> are 16-bit fields: constructing a \<open>Dim\<close> from the
  unsigned values \<open>m\<close> and \<open>n\<close> stores \<open>m mod 2^16\<close> and \<open>n mod 2^16\<close>, and no field of
  any \<open>Dim\<close> exceeds 65535.
\<close>

theorem Dim_storage_limit:
  "unat (rows (Dim2 m n)) = unat m mod 2 ^ 16 \<and> unat (cols (Dim2 m n)) = unat n mod 2 ^ 16
   \<and> unat (rows (Dim1 m)) = unat m mod 2 ^ 16
   \<and> unat (rows (d :: Dim)) \<le> 65535 \<and> unat (cols d) \<le> 65535"
  by (simp add: Dim2_def Dim1_def unat_ucast_32_16 unat_16_le)

text \<open>
  Claim C8, as stated: constructing from a single value \<open>m\<close> yields \<open>(m, 1)\<close>. It fails
  at \<open>m = 65536\<close>, where the stored number of rows is 0.
\<close>

theorem Dim1_exact_counterexample:
  "Dim1 65536 = \<lparr>rows = 0, cols = 1\<rparr> \<and> unat (rows (Dim1 65536)) \<noteq> unat (65536 :: 32 word)"
  by (simp add: Dim1_def)

text \<open>
  Claim C8, amended. The default-constructed \<open>Dim\<close> is \<open>(1, 1)\<close>; constructing from \<open>m\<close>
  yields \<open>(m mod 2^16, 1)\<close> and from \<open>(m, n)\<close> yields \<open>(m mod 2^16, n mod 2^16)\<close>, which
  are \<open>(m, 1)\<close> and \<open>(m, n)\<close> for values up to 65535; and \<open>d.transpose()\<close> is
  \<open>(d.cols, d.rows)\<close> for every \<open>d\<close>.
\<close>

theorem Dim_value_type:
  "Dim0 = \<lparr>rows = 1, cols = 1\<rparr>
   \<and> unat (rows (Dim1 m)) = unat m mod 2 ^ 16 \<and> cols (Dim1 m) = 1
   \<and> unat (rows (Dim2 m n)) = unat m mod 2 ^ 16 \<and> unat (cols (Dim2 m n)) = unat n mod 2 ^ 16
   \<and> (unat m \<le> 65535 \<longrightarrow> unat (rows (Dim1 m)) = unat m \<and> unat (rows (Dim2 m n)) = unat m)
   \<and> (unat n \<le> 65535 \<longrightarrow> unat (cols (Dim2 m n)) = unat n)
   \<and> transpose_Dim d = \<lparr>rows = cols d, cols = rows d\<rparr>"
  by (simp add: Dim0_def Dim1_def Dim2_def unat_ucast_32_16 transpose_Dim_fields)

theorem Dim_value_type_witness:
  "unat (7 :: 32 word) \<le> 65535 \<and> unat (5 :: 32 word) \<le> 65535
   \<and> unat (rows (Dim1 7)) = 7 \<and> unat (rows (Dim2 7 5)) = 7 \<and> unat (cols (Dim2 7 5)) = 5
   \<and> transpose_Dim (Dim2 7 5) = \<lparr>rows = 5, cols = 7\<rparr>"
  using Dim_value_type [of 7 5 "Dim2 7 5"] by (simp add: Dim2_def)

text \<open>
  Claim C9. For dimensions with \<open>a.cols == b.rows\<close>, the product of the transposes in
  the opposite order is defined as well (its own assertion holds), and it equals the
  transpose of the product \<open>a * b\<close>.
\<close>

theorem transpose_times_Dim:
  "cols a = rows b \<Longrightarrow>
     cols (transpose_Dim b) = rows (transpose_Dim a)
     \<and> (\<exists>p. times_Dim a b = Inr p
            \<and> times_Dim (transpose_Dim b) (transpose_Dim a) = Inr (transpose_Dim p))"
  by (simp add: times_Dim_def Dim2_widened transpose_Dim_fields)

theorem transpose_times_Dim_witness:
  "cols (Dim2 2 3) = rows (Dim2 3 4)
   \<and> cols (transpose_Dim (Dim2 3 4)) = rows (transpose_Dim (Dim2 2 3))
   \<and> (\<exists>p. times_Dim (Dim2 2 3) (Dim2 3 4) = Inr p
          \<and> times_Dim (transpose_Dim (Dim2 3 4)) (transpose_Dim (Dim2 2 3)) = Inr (transpose_Dim p))"
proof -
  have h: "cols (Dim2 2 3) = rows (Dim2 3 4)" by (simp add: Dim2_def)
  show ?thesis using h transpose_times_Dim [OF h] by simp
qed

section \<open>Properties of the builders\<close>

subsection \<open>The argument loop and add\_function\<close>

lemma occurrences_Nil: "occurrences [] v = 0"
  by (simp add: occurrences_def)

lemma occurrences_Cons:
  "occurrences (ni # as) v = (if unat ni = v then Suc (occurrences as v) else occurrences as v)"
  by (simp add: occurrences_def)

lemma occurrences_0: "occurrences as v = 0 \<longleftrightarrow> v \<notin> unat ` set as"
  by (induction as) (auto simp: occurrences_Cons occurrences_Nil)

lemma add_arguments_Inr:
  "add_arguments ei as ts ns = Inr (ts', ns') \<Longrightarrow>
     ts' = ts @ as \<and> length ns' = length ns \<and> list_all (\<lambda>ni. unat ni < length ns) as
     \<and> (\<forall>v<length ns. ns' ! v =
           (ns ! v)\<lparr>out_edges := out_edges (ns ! v) @ replicate (occurrences as v) ei\<rparr>)"
proof (induction as arbitrary: ts ns)
  case Nil
  then show ?case by (simp add: occurrences_Nil)
next
  case (Cons ni as)
  let ?ns1 = "ns[unat ni := (ns ! unat ni)\<lparr>out_edges := out_edges (ns ! unat ni) @ [ei]\<rparr>]"
  from Cons.prems have inr: "unat ni < length ns"
    by (simp split: if_splits)
  with Cons.prems have rec: "add_arguments ei as (ts @ [ni]) ?ns1 = Inr (ts', ns')"
    by simp
  from Cons.IH [OF rec]
  have ts': "ts' = (ts @ [ni]) @ as" and len: "length ns' = length ?ns1"
    and rng: "list_all (\<lambda>ni. unat ni < length ?ns1) as"
    and nth: "\<And>v. v < length ?ns1 \<Longrightarrow> ns' ! v =
           (?ns1 ! v)\<lparr>out_edges := out_edges (?ns1 ! v) @ replicate (occurrences as v) ei\<rparr>"
    by blast+
  have "ns' ! v = (ns ! v)\<lparr>out_edges := out_edges (ns ! v) @ replicate (occurrences (ni # as) v) ei\<rparr>"
    if v: "v < length ns" for v
  proof (cases "unat ni = v")
    case True
    with v nth [of v] show ?thesis
      by (simp add: occurrences_Cons)
  next
    case False
    with v nth [of v] show ?thesis
      by (simp add: occurrences_Cons)
  qed
  with ts' len rng inr show ?case by simp
qed

lemma add_arguments_defined:
  "list_all (\<lambda>ni. unat ni < length ns) as \<Longrightarrow> \<exists>res. add_arguments ei as ts ns = Inr res"
  by (induction as arbitrary: ts ns) simp_all

lemma add_function_Inr:
  assumes "add_function F as name g = Inr (g', r)"
  shows "r = word_of_nat (length (nodes g))"
    and "edges g' = edges g @ [\<lparr>fn = F, head_node = word_of_nat (length (nodes g)), tail = as\<rparr>]"
    and "length (nodes g') = Suc (length (nodes g))"
    and "list_all (\<lambda>ni. unat ni \<le> length (nodes g)) as"
    and "\<And>v. v < length (nodes g) \<Longrightarrow> nodes g' ! v =
           (nodes g ! v)\<lparr>out_edges := out_edges (nodes g ! v)
              @ replicate (occurrences as v) (word_of_nat (length (edges g)))\<rparr>"
    and "nodes g' ! length (nodes g) =
           (Node_new (word_of_nat (length (edges g))) name)
             \<lparr>out_edges := replicate (occurrences as (length (nodes g))) (word_of_nat (length (edges g)))\<rparr>"
proof -
  let ?ei = "word_of_nat (length (edges g)) :: 32 word"
  let ?ns1 = "nodes g @ [Node_new ?ei name]"
  from assms obtain ts ns2 where
    loop: "add_arguments ?ei as [] ?ns1 = Inr (ts, ns2)"
    and g': "g' = \<lparr>edges = edges g @ [\<lparr>fn = F, head_node = word_of_nat (length (nodes g)), tail = ts\<rparr>],
                  nodes = ns2\<rparr>"
    and r: "r = word_of_nat (length (nodes g))"
    by (auto simp: add_function_def Let_def split: sum.splits)
  from add_arguments_Inr [OF loop]
  have ts: "ts = as" and len: "length ns2 = length ?ns1"
    and rng: "list_all (\<lambda>ni. unat ni < length ?ns1) as"
    and nth: "\<And>v. v < length ?ns1 \<Longrightarrow> ns2 ! v =
           (?ns1 ! v)\<lparr>out_edges := out_edges (?ns1 ! v) @ replicate (occurrences as v) ?ei\<rparr>"
    by simp_all
  show "r = word_of_nat (length (nodes g))" by (rule r)
  show "edges g' = edges g @ [\<lparr>fn = F, head_node = word_of_nat (length (nodes g)), tail = as\<rparr>]"
    by (simp add: g' ts)
  show "length (nodes g') = Suc (length (nodes g))"
    by (simp add: g' len)
  show "list_all (\<lambda>ni. unat ni \<le> length (nodes g)) as"
    using rng by (simp add: less_Suc_eq_le)
  show "nodes g' ! v = (nodes g ! v)\<lparr>out_edges := out_edges (nodes g ! v)
              @ replicate (occurrences as v) ?ei\<rparr>" if "v < length (nodes g)" for v
    using nth [of v] that by (simp add: g' nth_append)
  show "nodes g' ! length (nodes g) = (Node_new ?ei name)
             \<lparr>out_edges := replicate (occurrences as (length (nodes g))) ?ei\<rparr>"
    using nth [of "length (nodes g)"] by (simp add: g' Node_new_def)
qed

lemma add_function_defined:
  assumes "list_all (\<lambda>ni. unat ni \<le> length (nodes g)) as"
  shows "\<exists>g' r. add_function F as name g = Inr (g', r)"
proof -
  let ?ei = "word_of_nat (length (edges g)) :: 32 word"
  let ?ns1 = "nodes g @ [Node_new ?ei name]"
  from assms have "list_all (\<lambda>ni. unat ni < length ?ns1) as"
    by (simp add: less_Suc_eq_le)
  from add_arguments_defined [OF this, of ?ei "[]"]
  obtain res where "add_arguments ?ei as [] ?ns1 = Inr res" by blast
  then show ?thesis
    by (cases res) (simp add: add_function_def Let_def)
qed

lemma occurrences_pos: "0 < occurrences as v \<longleftrightarrow> v \<in> unat ` set as"
  using occurrences_0 [of as v] by auto

lemma add_parameter_as_function: "add_function P [] name g = Inr (add_parameter P d name g)"
  by (simp add: add_function_def add_parameter_def Let_def)

lemma add_input_as_function: "add_function P [] name g = Inr (add_input P d name g)"
  by (simp add: add_function_def add_input_def Let_def)

lemma builder_invariant_empty: "builder_invariant empty_graph"
  by (simp add: builder_invariant_def empty_graph_def)

lemma builder_invariant_add_function:
  assumes inv: "builder_invariant g"
    and ex: "list_all (exists_in g) as"
    and step: "add_function F as name g = Inr (g', r)"
  shows "builder_invariant g'"
proof -
  let ?n = "length (nodes g)"
  let ?ei = "word_of_nat (length (edges g)) :: 32 word"
  note post = add_function_Inr [OF step]
  from inv have len: "length (edges g) = ?n"
    by (simp add: builder_invariant_def)
  from inv have ine: "\<And>i. i < ?n \<Longrightarrow> in_edge (nodes g ! i) = word_of_nat i"
    by (simp add: builder_invariant_def)
  from inv have hd: "\<And>j. j < length (edges g) \<Longrightarrow> head_node (edges g ! j) = word_of_nat j"
    by (simp add: builder_invariant_def)
  from inv have tl: "\<And>j t. j < length (edges g) \<Longrightarrow> t \<in> set (tail (edges g ! j)) \<Longrightarrow> unat t < j"
    by (simp add: builder_invariant_def)
  from inv have fwd: "\<And>j t. j < length (edges g) \<Longrightarrow> t \<in> set (tail (edges g ! j))
                \<Longrightarrow> word_of_nat j \<in> set (out_edges (nodes g ! unat t))"
    by (simp add: builder_invariant_def)
  from inv have bwd: "\<And>i x. i < ?n \<Longrightarrow> x \<in> set (out_edges (nodes g ! i))
                \<Longrightarrow> \<exists>j<length (edges g). x = word_of_nat j \<and> i \<in> unat ` set (tail (edges g ! j))"
    unfolding builder_invariant_def by blast
  note hd = hd [unfolded len] and tl = tl [unfolded len]
    and fwd = fwd [unfolded len] and bwd = bwd [unfolded len]
  from ex have args: "\<And>t. t \<in> set as \<Longrightarrow> unat t < ?n"
    by (simp add: list_all_iff exists_in_def)
  then have "?n \<notin> unat ` set as" by fastforce
  then have occ_n: "occurrences as ?n = 0" by (simp add: occurrences_0)
  have edge_old: "edges g' ! j = edges g ! j" if "j < ?n" for j
    using that by (simp add: post(2) nth_append len)
  have edge_new: "edges g' ! ?n = \<lparr>fn = F, head_node = word_of_nat ?n, tail = as\<rparr>"
    by (simp add: post(2) nth_append len)
  have len_e: "length (edges g') = Suc ?n" by (simp add: post(2) len)
  have outs_old: "out_edges (nodes g' ! v) =
      out_edges (nodes g ! v) @ replicate (occurrences as v) ?ei" if "v < ?n" for v
    using post(5) [OF that] by simp
  have outs_new: "out_edges (nodes g' ! ?n) = []"
    using post(6) occ_n by simp
  have c1: "length (edges g') = length (nodes g')"
    by (simp add: len_e post(3))
  have c2: "in_edge (nodes g' ! i) = word_of_nat i" if "i < length (nodes g')" for i
  proof (cases "i < ?n")
    case True
    then show ?thesis using post(5) [OF True] ine by simp
  next
    case False
    with that have "i = ?n" by (simp add: post(3))
    then show ?thesis using post(6) by (simp add: Node_new_def len)
  qed
  have c3: "head_node (edges g' ! j) = word_of_nat j" if "j < length (edges g')" for j
  proof (cases "j < ?n")
    case True
    then show ?thesis by (simp add: edge_old hd)
  next
    case False
    with that have "j = ?n" by (simp add: len_e)
    then show ?thesis by (simp add: edge_new)
  qed
  have c4: "unat t < j" if "j < length (edges g')" "t \<in> set (tail (edges g' ! j))" for j t
  proof (cases "j < ?n")
    case True
    with that show ?thesis by (simp add: edge_old tl)
  next
    case False
    with that have "j = ?n" by (simp add: len_e)
    with that show ?thesis by (simp add: edge_new args)
  qed
  have c5: "word_of_nat j \<in> set (out_edges (nodes g' ! unat t))"
    if "j < length (edges g')" "t \<in> set (tail (edges g' ! j))" for j t
  proof (cases "j < ?n")
    case True
    with that have t: "t \<in> set (tail (edges g ! j))" by (simp add: edge_old)
    with True have "unat t < ?n" using tl [of j t] by simp
    with fwd [OF True t] show ?thesis by (simp add: outs_old)
  next
    case False
    with that have j: "j = ?n" by (simp add: len_e)
    with that have t: "t \<in> set as" by (simp add: edge_new)
    then have "0 < occurrences as (unat t)" by (simp add: occurrences_pos)
    with args [OF t] show ?thesis by (simp add: outs_old j len)
  qed
  have c6: "\<exists>j<length (edges g'). x = word_of_nat j \<and> i \<in> unat ` set (tail (edges g' ! j))"
    if "i < length (nodes g')" "x \<in> set (out_edges (nodes g' ! i))" for i x
  proof (cases "i < ?n")
    case True
    with that have "x \<in> set (out_edges (nodes g ! i)) \<or> (x = ?ei \<and> 0 < occurrences as i)"
      by (auto simp: outs_old)
    then show ?thesis
    proof
      assume "x \<in> set (out_edges (nodes g ! i))"
      from bwd [OF True this] obtain j where "j < ?n" "x = word_of_nat j"
        "i \<in> unat ` set (tail (edges g ! j))" by blast
      then have "j < length (edges g') \<and> x = word_of_nat j \<and> i \<in> unat ` set (tail (edges g' ! j))"
        by (simp add: edge_old len_e)
      then show ?thesis by blast
    next
      assume "x = ?ei \<and> 0 < occurrences as i"
      then have "?n < length (edges g') \<and> x = word_of_nat ?n \<and> i \<in> unat ` set (tail (edges g' ! ?n))"
        by (simp add: len_e len edge_new occurrences_pos)
      then show ?thesis by blast
    qed
  next
    case False
    with that have "i = ?n" by (simp add: post(3))
    with that show ?thesis by (simp add: outs_new)
  qed
  show ?thesis
    unfolding builder_invariant_def using c1 c2 c3 c4 c5 c6 by blast
qed

lemma built_invariant: "built g \<Longrightarrow> builder_invariant g"
proof (induction rule: built.induct)
  case built_empty
  show ?case by (rule builder_invariant_empty)
next
  case (built_function g as F name g' r)
  show ?case
    by (rule builder_invariant_add_function [OF built_function.IH built_function.hyps(2,3)])
qed

text \<open>The two builders whose bodies are modelled from the spec act as \<open>add_function\<close>
  with an empty argument list, so the graphs they produce are built graphs too.\<close>

lemma built_add_parameter: "built g \<Longrightarrow> built (fst (add_parameter P d name g))"
  using built_function [of g "[]" P name "fst (add_parameter P d name g)" "snd (add_parameter P d name g)"]
  by (simp add: add_parameter_as_function)

lemma built_add_input: "built g \<Longrightarrow> built (fst (add_input P d name g))"
  using built_function [of g "[]" P name "fst (add_input P d name g)" "snd (add_input P d name g)"]
  by (simp add: add_input_as_function)

text \<open>
  The new node is in the vector before the loop runs, so a call that passes the index
  of the node it is creating is defined; the graph it produces is not topological. This
  is the call that the condition on the arguments of \<open>built\<close> excludes.
\<close>

lemma self_argument_not_topological:
  "add_function F [0] name empty_graph
     = Inr (\<lparr>edges = [\<lparr>fn = F, head_node = 0, tail = [0]\<rparr>],
             nodes = [(Node_new 0 name)\<lparr>out_edges := [0]\<rparr>]\<rparr>, 0)
   \<and> \<not> topological \<lparr>edges = [\<lparr>fn = F, head_node = 0, tail = [0]\<rparr>],
             nodes = [(Node_new 0 name)\<lparr>out_edges := [0]\<rparr>]\<rparr>"
  by (simp add: add_function_def empty_graph_def topological_def Node_new_def)

lemma occurrences_count: "occurrences as (unat ni) = count_list as ni"
  by (induction as) (simp_all add: occurrences_Nil occurrences_Cons word_unat_eq_iff [symmetric])

lemma add_function_effect:
  assumes rng: "list_all (\<lambda>ni. unat ni \<le> length (nodes g)) as"
  shows "\<exists>g' r. add_function F as name g = Inr (g', r)
           \<and> r = word_of_nat (length (nodes g))
           \<and> edges g' = edges g @ [\<lparr>fn = F, head_node = r, tail = as\<rparr>]
           \<and> length (nodes g') = Suc (length (nodes g))
           \<and> (\<forall>v<length (nodes g). nodes g' ! v =
                 (nodes g ! v)\<lparr>out_edges := out_edges (nodes g ! v)
                    @ replicate (occurrences as v) (word_of_nat (length (edges g)))\<rparr>)
           \<and> nodes g' ! length (nodes g) =
                 (Node_new (word_of_nat (length (edges g))) name)
                   \<lparr>out_edges := replicate (occurrences as (length (nodes g)))
                                  (word_of_nat (length (edges g)))\<rparr>"
proof -
  from add_function_defined [OF rng, of F name]
  obtain g' r where step: "add_function F as name g = Inr (g', r)" by blast
  note post = add_function_Inr [OF step]
  show ?thesis
    using step post(1,2,3,6) post(5) by simp
qed

subsection \<open>From the builder invariant to the structural invariants\<close>

lemma unat_index: "j < n \<Longrightarrow> n \<le> 2 ^ 32 \<Longrightarrow> unat (word_of_nat j :: 32 word) = j"
  by (simp add: unat_of_nat)

lemma invariant_topological:
  assumes inv: "builder_invariant g" and cap: "length (nodes g) \<le> 2 ^ 32"
  shows "topological g"
  unfolding topological_def
proof (intro ballI)
  fix e t assume "e \<in> set (edges g)" and t: "t \<in> set (tail e)"
  then obtain j where j: "j < length (edges g)" and e: "e = edges g ! j"
    by (auto simp: in_set_conv_nth)
  from inv j have hd: "head_node e = word_of_nat j"
    by (simp add: builder_invariant_def e)
  from inv j t have lt: "unat t < j"
    by (simp add: builder_invariant_def e)
  from inv have "length (edges g) = length (nodes g)"
    by (simp add: builder_invariant_def)
  with j cap have "unat (head_node e) = j"
    by (simp add: hd unat_index)
  with lt show "t < head_node e"
    by (simp add: word_less_nat_alt)
qed

lemma invariant_unique_defining_edge:
  assumes inv: "builder_invariant g" and cap: "length (nodes g) \<le> 2 ^ 32"
  shows "unique_defining_edge g"
proof -
  from inv have len: "length (edges g) = length (nodes g)"
    by (simp add: builder_invariant_def)
  from inv have ine: "\<And>i. i < length (nodes g) \<Longrightarrow> unat (in_edge (nodes g ! i)) = i"
    using cap by (simp add: builder_invariant_def unat_index)
  from inv have hd: "\<And>j. j < length (nodes g) \<Longrightarrow> unat (head_node (edges g ! j)) = j"
    using cap by (simp add: builder_invariant_def unat_index)
  have "distinct (map head_node (edges g))"
    unfolding distinct_conv_nth
  proof (intro allI impI)
    fix i j assume "i < length (map head_node (edges g))" "j < length (map head_node (edges g))"
      "i \<noteq> j"
    then show "map head_node (edges g) ! i \<noteq> map head_node (edges g) ! j"
      using hd [of i] hd [of j] by (auto simp: len)
  qed
  then show ?thesis
    unfolding unique_defining_edge_def by (simp add: len ine hd)
qed

lemma invariant_link_consistent:
  assumes inv: "builder_invariant g" and cap: "length (nodes g) \<le> 2 ^ 32"
  shows "link_consistent g"
proof -
  from inv have len: "length (edges g) = length (nodes g)"
    by (simp add: builder_invariant_def)
  have a: "unat t < length (nodes g) \<and> j \<in> unat ` set (out_edges (nodes g ! unat t))"
    if j: "j < length (edges g)" and t: "t \<in> set (tail (edges g ! j))" for j t
  proof -
    from inv j t have "unat t < j"
      by (simp add: builder_invariant_def)
    moreover from inv j t have "word_of_nat j \<in> set (out_edges (nodes g ! unat t))"
      by (simp add: builder_invariant_def)
    then have "unat (word_of_nat j :: 32 word) \<in> unat ` set (out_edges (nodes g ! unat t))"
      by (rule imageI)
    moreover have "unat (word_of_nat j :: 32 word) = j"
      using j cap by (simp add: len unat_index)
    ultimately show ?thesis using j by (simp add: len)
  qed
  have b: "unat x < length (edges g) \<and> i \<in> unat ` set (tail (edges g ! unat x))"
    if i: "i < length (nodes g)" and x: "x \<in> set (out_edges (nodes g ! i))" for i x
  proof -
    from inv i x obtain j where j: "j < length (edges g)" and xj: "x = word_of_nat j"
      and m: "i \<in> unat ` set (tail (edges g ! j))"
      unfolding builder_invariant_def by blast
    have "unat x = j" using j cap by (simp add: xj len unat_index)
    with j m show ?thesis by simp
  qed
  show ?thesis
    unfolding link_consistent_def using a b by blast
qed

subsection \<open>The forward loop\<close>

lemma forward_nodes_upt:
  assumes "length ns = n" and "k \<le> n"
    and "\<forall>i<n. unat (in_edge (ns ! i)) < length es"
    and "\<forall>i<n. \<forall>t\<in>set (tail (es ! unat (in_edge (ns ! i)))). unat t < i"
    and "\<forall>i<k. evaluated fw es ns i"
  shows "\<exists>ns'. forward_nodes fw es [k..<n] ns = Inr ns' \<and> length ns' = n
           \<and> (\<forall>i<n. ns' ! i = (ns ! i)\<lparr>f := f (ns' ! i)\<rparr>)
           \<and> (\<forall>i<n. evaluated fw es ns' i)"
  using assms
proof (induction "n - k" arbitrary: k ns)
  case 0
  then have "k = n" by simp
  with 0 show ?case by simp
next
  case (Suc d)
  then have kn: "k < n" by simp
  let ?e = "es ! unat (in_edge (ns ! k))"
  let ?v = "fw (fn ?e) (map (\<lambda>t. f (ns ! unat t)) (tail ?e))"
  let ?ns1 = "ns[k := (ns ! k)\<lparr>f := ?v\<rparr>]"
  have upt: "[k..<n] = k # [Suc k..<n]"
    using kn by (simp add: upt_conv_Cons)
  have ie: "unat (in_edge (ns ! k)) < length es"
    using Suc.prems(3) kn by simp
  have tls: "\<And>t. t \<in> set (tail ?e) \<Longrightarrow> unat t < k"
    using Suc.prems(4) kn by simp
  then have rng: "list_all (\<lambda>t. unat t < length ns) (tail ?e)"
    using kn Suc.prems(1) by (fastforce simp: list_all_iff)
  have step: "forward_nodes fw es [k..<n] ns = forward_nodes fw es [Suc k..<n] ?ns1"
    using kn Suc.prems(1) ie rng by (simp add: upt Let_def)
  have in1: "in_edge (?ns1 ! i) = in_edge (ns ! i)" if "i < n" for i
    using that Suc.prems(1) by (cases "i = k") simp_all
  have f1: "f (?ns1 ! i) = f (ns ! i)" if "i < n" "i \<noteq> k" for i
    using that by simp
  have ev: "evaluated fw es ?ns1 i" if i: "i < Suc k" for i
  proof -
    have i_n: "i < n" using i kn by simp
    let ?ei = "es ! unat (in_edge (ns ! i))"
    have tl_i: "\<And>t. t \<in> set (tail ?ei) \<Longrightarrow> unat t < i"
      using Suc.prems(4) i_n by simp
    have same: "map (\<lambda>t. f (?ns1 ! unat t)) (tail ?ei) = map (\<lambda>t. f (ns ! unat t)) (tail ?ei)"
    proof (rule map_cong [OF refl])
      fix t assume "t \<in> set (tail ?ei)"
      then have "unat t < i" by (rule tl_i)
      with i have "unat t \<noteq> k" by simp
      then show "f (?ns1 ! unat t) = f (ns ! unat t)" by simp
    qed
    have e_same: "es ! unat (in_edge (?ns1 ! i)) = ?ei"
      using in1 [OF i_n] by simp
    have unfolded: "evaluated fw es ?ns1 i \<longleftrightarrow>
        f (?ns1 ! i) = fw (fn ?ei) (map (\<lambda>t. f (ns ! unat t)) (tail ?ei))"
      by (simp only: evaluated_def Let_def e_same same)
    show ?thesis
    proof (cases "i = k")
      case True
      have "f (?ns1 ! k) = ?v"
        using kn Suc.prems(1) by simp
      then show ?thesis
        unfolding unfolded unfolding True .
    next
      case False
      with i have "i < k" by simp
      with Suc.prems(5) have "evaluated fw es ns i" by simp
      then have "f (ns ! i) = fw (fn ?ei) (map (\<lambda>t. f (ns ! unat t)) (tail ?ei))"
        by (simp only: evaluated_def Let_def)
      moreover have "f (?ns1 ! i) = f (ns ! i)"
        using False by simp
      ultimately show ?thesis
        unfolding unfolded by (rule trans [rotated])
    qed
  qed
  have "\<exists>ns'. forward_nodes fw es [Suc k..<n] ?ns1 = Inr ns' \<and> length ns' = n
           \<and> (\<forall>i<n. ns' ! i = (?ns1 ! i)\<lparr>f := f (ns' ! i)\<rparr>)
           \<and> (\<forall>i<n. evaluated fw es ns' i)"
  proof (rule Suc.hyps(1))
    show "d = n - Suc k" using Suc.hyps(2) by simp
    show "length ?ns1 = n" using Suc.prems(1) by simp
    show "Suc k \<le> n" using kn by simp
    show "\<forall>i<n. unat (in_edge (?ns1 ! i)) < length es"
      using in1 Suc.prems(3) by simp
    show "\<forall>i<n. \<forall>t\<in>set (tail (es ! unat (in_edge (?ns1 ! i)))). unat t < i"
      using in1 Suc.prems(4) by simp
    show "\<forall>i<Suc k. evaluated fw es ?ns1 i"
      using ev by blast
  qed
  then obtain ns' where res: "forward_nodes fw es [Suc k..<n] ?ns1 = Inr ns'"
    and len: "length ns' = n"
    and frame: "\<And>i. i < n \<Longrightarrow> ns' ! i = (?ns1 ! i)\<lparr>f := f (ns' ! i)\<rparr>"
    and all: "\<forall>i<n. evaluated fw es ns' i"
    by blast
  have "ns' ! i = (ns ! i)\<lparr>f := f (ns' ! i)\<rparr>" if "i < n" for i
    using frame [OF that] that Suc.prems(1) by (cases "i = k") simp_all
  with res len all step show ?case by simp
qed

lemma invariant_evaluable:
  assumes inv: "builder_invariant g" and cap: "length (nodes g) \<le> 2 ^ 32"
  shows "evaluable g"
  unfolding evaluable_def
proof (intro allI impI conjI ballI)
  fix i assume i: "i < length (nodes g)"
  from inv have len: "length (edges g) = length (nodes g)"
    by (simp add: builder_invariant_def)
  from inv i cap have ine: "unat (in_edge (nodes g ! i)) = i"
    by (simp add: builder_invariant_def unat_index)
  show "unat (in_edge (nodes g ! i)) < length (edges g)"
    using i by (simp add: ine len)
  fix t assume "t \<in> set (tail (edges g ! unat (in_edge (nodes g ! i))))"
  then have "t \<in> set (tail (edges g ! i))" by (simp add: ine)
  with inv i show "unat t < i"
    by (simp add: builder_invariant_def len)
qed

lemma built_evaluable: "built g \<Longrightarrow> length (nodes g) \<le> 2 ^ 32 \<Longrightarrow> evaluable g"
  by (rule invariant_evaluable [OF built_invariant])

subsection \<open>The example graph is built by builder calls\<close>

lemma inputs_graph_steps:
  "add_function (Const_fn 2) [] ''x'' empty_graph = Inr (x_graph, 0)"
  "add_function (Const_fn 5) [] ''y'' x_graph = Inr (inputs_graph, 1)"
  by (simp_all add: add_function_def empty_graph_def x_graph_def inputs_graph_def Node_new_def)

lemma inputs_graph_built: "built inputs_graph"
proof -
  have "built x_graph"
    by (rule built_function [OF built_empty _ inputs_graph_steps(1)]) simp
  then show ?thesis
    by (rule built_function [OF _ _ inputs_graph_steps(2)]) simp
qed

lemma sum_graph_step: "add_function Sum_fn [0, 1] ''z'' inputs_graph = Inr (sum_graph, 2)"
  by (simp add: add_function_def inputs_graph_def sum_graph_def Node_new_def)

lemma sum_graph_args: "list_all (exists_in inputs_graph) [0, 1]"
  by (simp add: exists_in_def inputs_graph_def)

lemma sum_graph_built: "built sum_graph"
  by (rule built_function [OF inputs_graph_built sum_graph_args sum_graph_step])

lemma sum_graph_capacity: "length (nodes sum_graph) \<le> 2 ^ 32"
  by (simp add: sum_graph_def)

lemma forward_sum_graph:
  "forward scalar_forward sum_graph = Inr (sum_graph_evaluated, Matrix 1 1 [7])"
  by (simp add: forward_def sum_graph_def sum_graph_evaluated_def upt_rec [of 0] upt_rec [of 1] upt_rec [of 2] Let_def)

lemma forward_sum_graph_again:
  "forward shifted_forward sum_graph_evaluated = Inr (sum_graph_reevaluated, Matrix 1 1 [9])"
  by (simp add: forward_def sum_graph_evaluated_def sum_graph_reevaluated_def
      upt_rec [of 0] upt_rec [of 1] upt_rec [of 2] Let_def)

section \<open>The claims about the graph\<close>

text \<open>
  Claim C1 (topological invariant). In every graph built by builder calls whose
  \<open>add_function\<close> arguments all exist in the graph they are passed to, and holding at
  most \<open>2^32\<close> vertices (the range of the \<open>unsigned\<close> indices), every tail index of every
  edge is strictly less than the edge's head index. No later builder call changes an edge
  that is already in the graph: the edge vector of the graph is a prefix of the edge
  vector after the call.
\<close>

theorem topological_invariant:
  assumes "built g" and "length (nodes g) \<le> 2 ^ 32"
  shows "topological g
     \<and> (\<forall>g' r. add_function F as name g = Inr (g', r)
           \<longrightarrow> take (length (edges g)) (edges g') = edges g)"
proof -
  have "topological g"
    by (rule invariant_topological [OF built_invariant [OF assms(1)] assms(2)])
  moreover have "take (length (edges g)) (edges g') = edges g"
    if "add_function F as name g = Inr (g', r)" for g' r
    using add_function_Inr(2) [OF that] by simp
  ultimately show ?thesis by blast
qed

theorem topological_invariant_witness:
  "built sum_graph \<and> length (nodes sum_graph) \<le> 2 ^ 32 \<and> topological sum_graph
   \<and> tail (edges sum_graph ! 2) = [0, 1]
   \<and> 0 < head_node (edges sum_graph ! 2) \<and> 1 < head_node (edges sum_graph ! 2)
   \<and> add_function Sum_fn [0, 1] ''z'' inputs_graph = Inr (sum_graph, 2)
   \<and> take (length (edges inputs_graph)) (edges sum_graph) = edges inputs_graph"
proof -
  have c: "length (nodes inputs_graph) \<le> 2 ^ 32" by (simp add: inputs_graph_def)
  from topological_invariant [OF inputs_graph_built c, of Sum_fn "[0, 1]" "''z''"] sum_graph_step
  have kept: "take (length (edges inputs_graph)) (edges sum_graph) = edges inputs_graph"
    by simp
  from topological_invariant [OF sum_graph_built sum_graph_capacity]
  have top: "topological sum_graph" by simp
  have e: "edges sum_graph ! 2 \<in> set (edges sum_graph)"
    and t: "tail (edges sum_graph ! 2) = [0, 1]"
    by (simp_all add: sum_graph_def)
  from top e have "\<forall>t\<in>set (tail (edges sum_graph ! 2)). t < head_node (edges sum_graph ! 2)"
    unfolding topological_def by blast
  then have "0 < head_node (edges sum_graph ! 2) \<and> 1 < head_node (edges sum_graph ! 2)"
    by (simp add: t)
  with top t kept sum_graph_built sum_graph_capacity sum_graph_step
  show ?thesis by simp
qed

text \<open>
  Claim C2 (postcondition of \<open>add_function\<close>). A call whose arguments are indices of the
  node vector returns; it appends exactly one vertex and exactly one edge \<open>e\<close>; the head
  of \<open>e\<close> is the returned index \<open>r\<close>, its tail is the argument list in order, and its
  arity is the number of arguments; the index \<open>x\<close> of the new edge is appended to the
  outgoing-edge list of every argument vertex, once per occurrence, and nothing else of
  the old vertices changes; \<open>r\<close> is the number of vertices before the call. The indices are
  \<open>unsigned\<close> values: \<open>r\<close>, \<open>x\<close> and the arity are the respective counts converted to
  \<open>unsigned\<close>, and equal them as numbers whenever the counts are below \<open>2^32\<close>.
\<close>

theorem add_function_post:
  assumes "list_all (\<lambda>ni. unat ni \<le> length (nodes g)) as"
  shows "\<exists>g' r e x. add_function F as name g = Inr (g', r)
           \<and> length (nodes g') = length (nodes g) + 1
           \<and> edges g' = edges g @ [e]
           \<and> head_node e = r \<and> tail e = as \<and> arity e = word_of_nat (length as)
           \<and> x = word_of_nat (length (edges g))
           \<and> (\<forall>v<length (nodes g). nodes g' ! v =
                 (nodes g ! v)\<lparr>out_edges := out_edges (nodes g ! v) @ replicate (occurrences as v) x\<rparr>)
           \<and> nodes g' ! length (nodes g) =
                 (Node_new x name)\<lparr>out_edges := replicate (occurrences as (length (nodes g))) x\<rparr>
           \<and> r = word_of_nat (length (nodes g))
           \<and> (length (nodes g) < 2 ^ 32 \<longrightarrow> unat r = length (nodes g))
           \<and> (length (edges g) < 2 ^ 32 \<longrightarrow> unat x = length (edges g))
           \<and> (length as < 2 ^ 32 \<longrightarrow> unat (arity e) = length as)"
proof -
  from add_function_effect [OF assms, of F name]
  obtain g' r where step: "add_function F as name g = Inr (g', r)"
    and r: "r = word_of_nat (length (nodes g))"
    and es: "edges g' = edges g @ [\<lparr>fn = F, head_node = r, tail = as\<rparr>]"
    and len: "length (nodes g') = Suc (length (nodes g))"
    and old: "\<forall>v<length (nodes g). nodes g' ! v =
                 (nodes g ! v)\<lparr>out_edges := out_edges (nodes g ! v)
                    @ replicate (occurrences as v) (word_of_nat (length (edges g)))\<rparr>"
    and new: "nodes g' ! length (nodes g) =
                 (Node_new (word_of_nat (length (edges g))) name)
                   \<lparr>out_edges := replicate (occurrences as (length (nodes g)))
                                  (word_of_nat (length (edges g)))\<rparr>"
    by blast
  let ?e = "\<lparr>fn = F, head_node = r, tail = as\<rparr>"
  let ?x = "word_of_nat (length (edges g)) :: 32 word"
  have ur: "length (nodes g) < 2 ^ 32 \<longrightarrow> unat r = length (nodes g)"
    by (simp add: r unat_of_nat)
  have ux: "length (edges g) < 2 ^ 32 \<longrightarrow> unat ?x = length (edges g)"
    by (simp add: unat_of_nat)
  have ar: "arity ?e = word_of_nat (length as)"
    by (simp add: arity_def)
  have ua: "length as < 2 ^ 32 \<longrightarrow> unat (arity ?e) = length as"
    by (simp add: arity_def unat_of_nat)
  have "add_function F as name g = Inr (g', r)
           \<and> length (nodes g') = length (nodes g) + 1
           \<and> edges g' = edges g @ [?e]
           \<and> head_node ?e = r \<and> tail ?e = as \<and> arity ?e = word_of_nat (length as)
           \<and> ?x = word_of_nat (length (edges g))
           \<and> (\<forall>v<length (nodes g). nodes g' ! v =
                 (nodes g ! v)\<lparr>out_edges := out_edges (nodes g ! v) @ replicate (occurrences as v) ?x\<rparr>)
           \<and> nodes g' ! length (nodes g) =
                 (Node_new ?x name)\<lparr>out_edges := replicate (occurrences as (length (nodes g))) ?x\<rparr>
           \<and> r = word_of_nat (length (nodes g))
           \<and> (length (nodes g) < 2 ^ 32 \<longrightarrow> unat r = length (nodes g))
           \<and> (length (edges g) < 2 ^ 32 \<longrightarrow> unat ?x = length (edges g))
           \<and> (length as < 2 ^ 32 \<longrightarrow> unat (arity ?e) = length as)"
    using step len es ar ur ux ua old new r by simp
  then show ?thesis by blast
qed

theorem add_function_post_witness:
  "list_all (\<lambda>ni. unat ni \<le> length (nodes inputs_graph)) [0, 1]
   \<and> length (nodes inputs_graph) < 2 ^ 32 \<and> length (edges inputs_graph) < 2 ^ 32
   \<and> length [0 :: 32 word, 1] < 2 ^ 32
   \<and> add_function Sum_fn [0, 1] ''z'' inputs_graph = Inr (sum_graph, 2)
   \<and> length (nodes sum_graph) = length (nodes inputs_graph) + 1
   \<and> edges sum_graph = edges inputs_graph @ [\<lparr>fn = Sum_fn, head_node = 2, tail = [0, 1]\<rparr>]
   \<and> unat (arity \<lparr>fn = Sum_fn, head_node = 2, tail = [0, 1]\<rparr>) = 2
   \<and> out_edges (nodes sum_graph ! 0) = out_edges (nodes inputs_graph ! 0) @ [2]
   \<and> out_edges (nodes sum_graph ! 1) = out_edges (nodes inputs_graph ! 1) @ [2]
   \<and> unat (2 :: 32 word) = length (nodes inputs_graph)"
proof -
  have h: "list_all (\<lambda>ni. unat ni \<le> length (nodes inputs_graph)) [0, 1]"
    by (simp add: inputs_graph_def)
  from add_function_post [OF h, of Sum_fn "''z''"]
  obtain g' r e x where "add_function Sum_fn [0, 1] ''z'' inputs_graph = Inr (g', r)"
    and "length (nodes g') = length (nodes inputs_graph) + 1"
    and "edges g' = edges inputs_graph @ [e]"
    and "length (nodes inputs_graph) < 2 ^ 32 \<longrightarrow> unat r = length (nodes inputs_graph)"
    by blast
  then have "length (nodes sum_graph) = length (nodes inputs_graph) + 1
      \<and> unat (2 :: 32 word) = length (nodes inputs_graph)"
    using sum_graph_step by (simp add: inputs_graph_def)
  then show ?thesis
    using h sum_graph_step by (simp add: inputs_graph_def sum_graph_def arity_def)
qed

text \<open>
  Claim C3 (link consistency). In every graph built by builder calls with existing
  argument indices, holding at most \<open>2^32\<close> vertices: for every edge and every index \<open>t\<close>
  in its tail, the index of the edge is a member of the outgoing-edge list of vertex
  \<open>t\<close>; and every entry of a vertex's outgoing-edge list names an edge whose tail
  contains that vertex.
\<close>

theorem link_consistency_invariant:
  "built g \<Longrightarrow> length (nodes g) \<le> 2 ^ 32 \<Longrightarrow> link_consistent g"
  by (rule invariant_link_consistent [OF built_invariant])

theorem link_consistency_invariant_witness:
  "built sum_graph \<and> length (nodes sum_graph) \<le> 2 ^ 32 \<and> link_consistent sum_graph
   \<and> tail (edges sum_graph ! 2) = [0, 1]
   \<and> 2 \<in> unat ` set (out_edges (nodes sum_graph ! 0))
   \<and> 2 \<in> unat ` set (out_edges (nodes sum_graph ! 1))
   \<and> out_edges (nodes sum_graph ! 0) = [2]
   \<and> 0 \<in> unat ` set (tail (edges sum_graph ! 2))"
proof -
  from link_consistency_invariant [OF sum_graph_built sum_graph_capacity]
  have lc: "link_consistent sum_graph" .
  have l: "2 < length (edges sum_graph)" "0 < length (nodes sum_graph)"
    and t: "tail (edges sum_graph ! 2) = [0, 1]"
    and o: "out_edges (nodes sum_graph ! 0) = [2]"
    by (simp_all add: sum_graph_def)
  from lc l(1) have "\<forall>t\<in>set (tail (edges sum_graph ! 2)).
      2 \<in> unat ` set (out_edges (nodes sum_graph ! unat t))"
    unfolding link_consistent_def by blast
  then have a: "2 \<in> unat ` set (out_edges (nodes sum_graph ! 0))
      \<and> 2 \<in> unat ` set (out_edges (nodes sum_graph ! 1))"
    by (simp add: t)
  from lc l(2) have "\<forall>x\<in>set (out_edges (nodes sum_graph ! 0)).
      0 \<in> unat ` set (tail (edges sum_graph ! unat x))"
    unfolding link_consistent_def by blast
  then have b: "0 \<in> unat ` set (tail (edges sum_graph ! 2))"
    by (simp add: o)
  from lc a b t o sum_graph_built sum_graph_capacity show ?thesis by simp
qed

text \<open>
  Claim C4 (unique defining edge). In every graph built by builder calls, holding at most
  \<open>2^32\<close> vertices, the \<open>in_edge\<close> field of every vertex names an edge whose head is
  that vertex, it is the only edge with that head, and no two edges share a head.
\<close>

theorem unique_defining_edge_invariant:
  "built g \<Longrightarrow> length (nodes g) \<le> 2 ^ 32 \<Longrightarrow> unique_defining_edge g"
  by (rule invariant_unique_defining_edge [OF built_invariant])

theorem unique_defining_edge_invariant_witness:
  "built sum_graph \<and> length (nodes sum_graph) \<le> 2 ^ 32 \<and> unique_defining_edge sum_graph
   \<and> unat (in_edge (nodes sum_graph ! 2)) = 2
   \<and> unat (head_node (edges sum_graph ! 2)) = 2
   \<and> unat (head_node (edges sum_graph ! 0)) \<noteq> 2
   \<and> unat (head_node (edges sum_graph ! 1)) \<noteq> 2
   \<and> distinct (map head_node (edges sum_graph))"
proof -
  from unique_defining_edge_invariant [OF sum_graph_built sum_graph_capacity]
  have u: "unique_defining_edge sum_graph" .
  have l: "2 < length (nodes sum_graph)" "0 < length (edges sum_graph)" "1 < length (edges sum_graph)"
    and i: "unat (in_edge (nodes sum_graph ! 2)) = 2"
    by (simp_all add: sum_graph_def)
  from u l(1) have "unat (head_node (edges sum_graph ! unat (in_edge (nodes sum_graph ! 2)))) = 2
      \<and> (\<forall>j<length (edges sum_graph). unat (head_node (edges sum_graph ! j)) = 2
            \<longrightarrow> j = unat (in_edge (nodes sum_graph ! 2)))"
    unfolding unique_defining_edge_def by blast
  then have h: "unat (head_node (edges sum_graph ! 2)) = 2"
    and only: "\<And>j. j < length (edges sum_graph) \<Longrightarrow> unat (head_node (edges sum_graph ! j)) = 2
            \<Longrightarrow> j = 2"
    by (simp_all add: i)
  from only [OF l(2)] only [OF l(3)]
  have n: "unat (head_node (edges sum_graph ! 0)) \<noteq> 2 \<and> unat (head_node (edges sum_graph ! 1)) \<noteq> 2"
    by auto
  from u have d: "distinct (map head_node (edges sum_graph))"
    unfolding unique_defining_edge_def by blast
  from u i h n d sum_graph_built sum_graph_capacity show ?thesis by simp
qed

text \<open>
  Claim C5 (forward). On every non-empty graph in which the incoming edge of every vertex
  exists and has its tail at earlier positions, whatever the value slots hold before the
  call, \<open>forward\<close> returns; it returns the value slot of the last vertex of the vertex
  sequence; it leaves the edges and everything but the value slots of the vertices as they
  were; afterwards every vertex is evaluated: its value slot holds the result of its
  incoming edge's \<open>forward\<close> on the value slots of the edge's tail; and the graph it
  leaves satisfies the same condition, so the pass can be run again. The graphs built by
  builder calls, holding at most \<open>2^32\<close> vertices, satisfy the condition
  (\<open>built_evaluable\<close>).
\<close>

theorem forward_last_value:
  assumes ne: "nodes g \<noteq> []" and ev: "evaluable g"
  shows "\<exists>g'. forward fw g = Inr (g', f (last (nodes g')))
           \<and> edges g' = edges g \<and> length (nodes g') = length (nodes g)
           \<and> (\<forall>i<length (nodes g). nodes g' ! i = (nodes g ! i)\<lparr>f := f (nodes g' ! i)\<rparr>
                 \<and> evaluated fw (edges g') (nodes g') i)
           \<and> evaluable g'"
proof -
  let ?n = "length (nodes g)"
  from ev have a: "\<forall>i<?n. unat (in_edge (nodes g ! i)) < length (edges g)"
    unfolding evaluable_def by blast
  from ev have b: "\<forall>i<?n. \<forall>t\<in>set (tail (edges g ! unat (in_edge (nodes g ! i)))). unat t < i"
    unfolding evaluable_def by blast
  have c: "\<forall>i<0. evaluated fw (edges g) (nodes g) i" by simp
  from forward_nodes_upt [OF refl le0 a b c]
  obtain ns' where run: "forward_nodes fw (edges g) [0..<?n] (nodes g) = Inr ns'"
    and l: "length ns' = ?n"
    and frame: "\<forall>i<?n. ns' ! i = (nodes g ! i)\<lparr>f := f (ns' ! i)\<rparr>"
    and evd: "\<forall>i<?n. evaluated fw (edges g) ns' i"
    by blast
  let ?g' = "g\<lparr>nodes := ns'\<rparr>"
  have ine: "in_edge (ns' ! i) = in_edge (nodes g ! i)" if "i < ?n" for i
  proof -
    from frame that have "ns' ! i = (nodes g ! i)\<lparr>f := f (ns' ! i)\<rparr>" by blast
    then have "in_edge (ns' ! i) = in_edge ((nodes g ! i)\<lparr>f := f (ns' ! i)\<rparr>)" by simp
    then show ?thesis by simp
  qed
  have ev': "evaluable ?g'"
    unfolding evaluable_def using a b l ine by simp
  have "forward fw g = Inr (?g', f (last ns'))"
    using ne run by (simp add: forward_def)
  then have "forward fw g = Inr (?g', f (last (nodes ?g')))
           \<and> edges ?g' = edges g \<and> length (nodes ?g') = ?n
           \<and> (\<forall>i<?n. nodes ?g' ! i = (nodes g ! i)\<lparr>f := f (nodes ?g' ! i)\<rparr>
                 \<and> evaluated fw (edges ?g') (nodes ?g') i)
           \<and> evaluable ?g'"
    using l frame evd ev' by simp
  then show ?thesis by blast
qed

theorem forward_last_value_witness:
  "nodes sum_graph \<noteq> [] \<and> evaluable sum_graph
   \<and> forward scalar_forward sum_graph = Inr (sum_graph_evaluated, Matrix 1 1 [7])
   \<and> f (last (nodes sum_graph_evaluated)) = Matrix 1 1 [7]
   \<and> evaluated scalar_forward (edges sum_graph_evaluated) (nodes sum_graph_evaluated) 2
   \<and> nodes sum_graph_evaluated \<noteq> [] \<and> evaluable sum_graph_evaluated
   \<and> forward shifted_forward sum_graph_evaluated = Inr (sum_graph_reevaluated, Matrix 1 1 [9])
   \<and> f (last (nodes sum_graph_reevaluated)) = Matrix 1 1 [9]
   \<and> evaluated shifted_forward (edges sum_graph_reevaluated) (nodes sum_graph_reevaluated) 2"
proof -
  have ne: "nodes sum_graph \<noteq> []" by (simp add: sum_graph_def)
  have ev: "evaluable sum_graph"
    by (rule built_evaluable [OF sum_graph_built sum_graph_capacity])
  from forward_last_value [OF ne ev, of scalar_forward]
  obtain g' where run: "forward scalar_forward sum_graph = Inr (g', f (last (nodes g')))"
    and evd: "\<forall>i<length (nodes sum_graph).
                 nodes g' ! i = (nodes sum_graph ! i)\<lparr>f := f (nodes g' ! i)\<rparr>
                 \<and> evaluated scalar_forward (edges g') (nodes g') i"
    and ev': "evaluable g'"
    by blast
  from run forward_sum_graph have g': "g' = sum_graph_evaluated"
    and v: "f (last (nodes g')) = Matrix 1 1 [7]"
    by simp_all
  have two: "2 < length (nodes sum_graph)" by (simp add: sum_graph_def)
  with evd have e2: "evaluated scalar_forward (edges g') (nodes g') 2" by blast
  have first: "f (last (nodes sum_graph_evaluated)) = Matrix 1 1 [7]
      \<and> evaluated scalar_forward (edges sum_graph_evaluated) (nodes sum_graph_evaluated) 2
      \<and> evaluable sum_graph_evaluated"
    using v e2 ev' by (simp add: g')
  have ne2: "nodes sum_graph_evaluated \<noteq> []" by (simp add: sum_graph_evaluated_def)
  from first have ev2: "evaluable sum_graph_evaluated" by simp
  from forward_last_value [OF ne2 ev2, of shifted_forward]
  obtain g'' where run2: "forward shifted_forward sum_graph_evaluated = Inr (g'', f (last (nodes g'')))"
    and evd2: "\<forall>i<length (nodes sum_graph_evaluated).
                 nodes g'' ! i = (nodes sum_graph_evaluated ! i)\<lparr>f := f (nodes g'' ! i)\<rparr>
                 \<and> evaluated shifted_forward (edges g'') (nodes g'') i"
    by blast
  from run2 forward_sum_graph_again have g'': "g'' = sum_graph_reevaluated"
    and v2: "f (last (nodes g'')) = Matrix 1 1 [9]"
    by simp_all
  have "2 < length (nodes sum_graph_evaluated)" by (simp add: sum_graph_evaluated_def)
  with evd2 have "evaluated shifted_forward (edges g'') (nodes g'') 2" by blast
  with v2 have second: "f (last (nodes sum_graph_reevaluated)) = Matrix 1 1 [9]
      \<and> evaluated shifted_forward (edges sum_graph_reevaluated) (nodes sum_graph_reevaluated) 2"
    by (simp add: g'')
  from ne ev forward_sum_graph first ne2 forward_sum_graph_again second
  show ?thesis by simp
qed

text \<open>
  Claim C10 (duplicate arguments). If an index \<open>ni\<close> occurs \<open>k\<close> times in the argument
  list of one \<open>add_function\<close> call, then the tail of the new edge is the argument list
  itself, so \<open>ni\<close> occurs \<open>k\<close> times in it, in argument order; the new edge's index is
  appended \<open>k\<close> times to the outgoing-edge list of vertex \<open>ni\<close>; and the arity of the edge
  is the length of the argument list, each occurrence counted.
\<close>

theorem add_function_duplicates:
  assumes "list_all (\<lambda>ni. unat ni \<le> length (nodes g)) as"
    and "ni \<in> set as" and "count_list as ni = k"
  shows "\<exists>g' r e. add_function F as name g = Inr (g', r)
           \<and> edges g' = edges g @ [e]
           \<and> tail e = as \<and> count_list (tail e) ni = k
           \<and> out_edges (nodes g' ! unat ni) =
                (if unat ni < length (nodes g) then out_edges (nodes g ! unat ni) else [])
                  @ replicate k (word_of_nat (length (edges g)))
           \<and> arity e = word_of_nat (length as)
           \<and> (length as < 2 ^ 32 \<longrightarrow> unat (arity e) = length as)"
proof -
  from add_function_effect [OF assms(1), of F name]
  obtain g' r where step: "add_function F as name g = Inr (g', r)"
    and es: "edges g' = edges g @ [\<lparr>fn = F, head_node = r, tail = as\<rparr>]"
    and old: "\<forall>v<length (nodes g). nodes g' ! v =
                 (nodes g ! v)\<lparr>out_edges := out_edges (nodes g ! v)
                    @ replicate (occurrences as v) (word_of_nat (length (edges g)))\<rparr>"
    and new: "nodes g' ! length (nodes g) =
                 (Node_new (word_of_nat (length (edges g))) name)
                   \<lparr>out_edges := replicate (occurrences as (length (nodes g)))
                                  (word_of_nat (length (edges g)))\<rparr>"
    by blast
  let ?e = "\<lparr>fn = F, head_node = r, tail = as\<rparr>"
  from assms(1,2) have le: "unat ni \<le> length (nodes g)"
    by (simp add: list_all_iff)
  have k: "occurrences as (unat ni) = k"
    by (simp add: occurrences_count assms(3))
  have outs: "out_edges (nodes g' ! unat ni) =
                (if unat ni < length (nodes g) then out_edges (nodes g ! unat ni) else [])
                  @ replicate k (word_of_nat (length (edges g)))"
  proof (cases "unat ni < length (nodes g)")
    case True
    with old k show ?thesis by simp
  next
    case False
    with le have "unat ni = length (nodes g)" by simp
    with new k show ?thesis by (simp add: Node_new_def)
  qed
  have ar: "arity ?e = word_of_nat (length as)"
    by (simp add: arity_def)
  have ua: "length as < 2 ^ 32 \<longrightarrow> unat (arity ?e) = length as"
    by (simp add: arity_def unat_of_nat)
  have "add_function F as name g = Inr (g', r)
           \<and> edges g' = edges g @ [?e]
           \<and> tail ?e = as \<and> count_list (tail ?e) ni = k
           \<and> out_edges (nodes g' ! unat ni) =
                (if unat ni < length (nodes g) then out_edges (nodes g ! unat ni) else [])
                  @ replicate k (word_of_nat (length (edges g)))
           \<and> arity ?e = word_of_nat (length as)
           \<and> (length as < 2 ^ 32 \<longrightarrow> unat (arity ?e) = length as)"
    using step es outs ar ua assms(3) by simp
  then show ?thesis by blast
qed

theorem add_function_duplicates_witness:
  "list_all (\<lambda>ni. unat ni \<le> length (nodes inputs_graph)) [0, 0, 1]
   \<and> (0 :: 32 word) \<in> set [0, 0, 1] \<and> count_list [0 :: 32 word, 0, 1] 0 = 2
   \<and> length [0 :: 32 word, 0, 1] < 2 ^ 32
   \<and> (\<exists>g' r e. add_function Sum_fn [0, 0, 1] ''z'' inputs_graph = Inr (g', r)
         \<and> edges g' = edges inputs_graph @ [e]
         \<and> tail e = [0, 0, 1] \<and> count_list (tail e) 0 = 2
         \<and> out_edges (nodes g' ! 0) = [2, 2]
         \<and> unat (arity e) = 3)"
proof -
  have h: "list_all (\<lambda>ni. unat ni \<le> length (nodes inputs_graph)) [0, 0, 1]"
    by (simp add: inputs_graph_def)
  have m: "(0 :: 32 word) \<in> set [0, 0, 1]" by simp
  have c: "count_list [0 :: 32 word, 0, 1] 0 = 2" by simp
  have l: "length [0 :: 32 word, 0, 1] < 2 ^ 32" by simp
  from add_function_duplicates [OF h m c, of Sum_fn "''z''"]
  obtain g' r e where step: "add_function Sum_fn [0, 0, 1] ''z'' inputs_graph = Inr (g', r)"
    and es: "edges g' = edges inputs_graph @ [e]"
    and tl: "tail e = [0, 0, 1]" and cnt: "count_list (tail e) 0 = 2"
    and outs: "out_edges (nodes g' ! unat (0 :: 32 word)) =
       (if unat (0 :: 32 word) < length (nodes inputs_graph)
        then out_edges (nodes inputs_graph ! unat (0 :: 32 word)) else [])
         @ replicate 2 (word_of_nat (length (edges inputs_graph)))"
    and ar: "length [0 :: 32 word, 0, 1] < 2 ^ 32 \<longrightarrow> unat (arity e) = length [0 :: 32 word, 0, 1]"
    by blast
  from ar l have ar3: "unat (arity e) = 3" by simp
  from outs have outs2: "out_edges (nodes g' ! 0) = [2, 2]"
    by (simp add: inputs_graph_def numeral_2_eq_2)
  from step es tl cnt outs2 ar3 h m c l show ?thesis by blast
qed

end
